theory Spec2Isabelle
  imports Complex_Main
begin

section \<open>Data model\<close>

text \<open>
  The two notebooks work on numpy arrays. A two-dimensional array (an image, a window)
  is modelled as the list of its rows, a stack of images as a list of such grids.
  Pixel values are rationals: the corpus holds bytes, \<open>np.median\<close> returns the mean of
  the two middle values of an even-sized block (a multiple of one half), and all of
  these are represented exactly by the float64 arrays of the source, so that the
  arithmetic on them is the arithmetic of the rationals.
\<close>

type_synonym grid = "rat list list"

datatype error = ValueError | ZeroDivisionError | IndexError

definition nrows :: "grid \<Rightarrow> nat" where
  "nrows g = length g"

definition ncols :: "grid \<Rightarrow> nat" where
  "ncols g = (case g of [] \<Rightarrow> 0 | r # _ \<Rightarrow> length r)"

text \<open>\<open>has_shape h w g\<close>: the array \<open>g\<close> has \<open>h\<close> rows of \<open>w\<close> entries each.\<close>

definition has_shape :: "nat \<Rightarrow> nat \<Rightarrow> 'a list list \<Rightarrow> bool" where
  "has_shape h w g = (length g = h \<and> list_all (\<lambda>r. length r = w) g)"

section \<open>The dataset builder\<close>

subsection \<open>Library operations used by \<open>median_downsampling\<close>\<close>

text \<open>
  \<open>skimage.util.shape.view_as_windows(arr_in, window_shape, step)\<close> with a scalar window
  shape and a scalar step on a two-dimensional array. It refuses a step below one, a
  window larger than the array and a window below one (each a \<open>ValueError\<close>, tested in
  this order); otherwise it yields \<open>(n - window) // step + 1\<close> windows along each axis,
  window \<open>(i, j)\<close> being the slice of \<open>window\<close> rows from row \<open>i * step\<close> and
  \<open>window\<close> columns from column \<open>j * step\<close>.
\<close>

definition window_at :: "grid \<Rightarrow> nat \<Rightarrow> nat \<Rightarrow> nat \<Rightarrow> grid" where
  "window_at arr w r c = map (\<lambda>row. take w (drop c row)) (take w (drop r arr))"

definition view_as_windows :: "grid \<Rightarrow> int \<Rightarrow> int \<Rightarrow> error + grid list list" where
  "view_as_windows arr_in window step =
     (if step < 1 then Inl ValueError
      else if int (nrows arr_in) - window < 0 \<or> int (ncols arr_in) - window < 0
        then Inl ValueError
      else if window - 1 < 0 then Inl ValueError
      else Inr (map (\<lambda>i. map (\<lambda>j. window_at arr_in (nat window) (i * nat step) (j * nat step))
                         [0..<nat ((int (ncols arr_in) - window) div step + 1)])
                [0..<nat ((int (nrows arr_in) - window) div step + 1)]))"

text \<open>
  \<open>np.median\<close> of a non-empty collection of numbers: the middle element of the sorted
  values when their number is odd, the mean of the two middle elements otherwise.
  (On an empty collection numpy yields NaN; no window of \<open>view_as_windows\<close> is empty.)
\<close>

definition median :: "rat list \<Rightarrow> rat" where
  "median xs =
     (let s = sort xs; n = length xs
      in if n mod 2 = 1 then s ! (n div 2)
         else (s ! (n div 2 - 1) + s ! (n div 2)) / 2)"

text \<open>\<open>np.median(windows, axis=(2, 3))\<close>: the median over the entries of each window.\<close>

definition median_axes23 :: "grid list list \<Rightarrow> grid" where
  "median_axes23 windows = map (map (\<lambda>w. median (concat w))) windows"

subsection \<open>\<open>median_downsampling\<close>\<close>

text \<open>
  The floor division \<open>28 // cmp_dim\<close> raises \<open>ZeroDivisionError\<close> at zero; on the
  integers HOL's \<open>div\<close> rounds towards minus infinity as Python's \<open>//\<close> does.
\<close>

definition median_downsampling :: "grid \<Rightarrow> int \<Rightarrow> error + grid" where
  "median_downsampling in_image cmp_dim =
     (if cmp_dim < 15 then
        (if cmp_dim = 0 then Inl ZeroDivisionError
         else
           let window_size = 28 div cmp_dim
           in (case view_as_windows in_image window_size window_size of
                 Inl e \<Rightarrow> Inl e
               | Inr windows \<Rightarrow> Inr (median_axes23 windows)))
      else Inr in_image)"

subsection \<open>\<open>down_sample_list\<close>\<close>

text \<open>
  \<open>np.empty((n, cmp_dim, cmp_dim))\<close> refuses a negative dimension with \<open>ValueError\<close>
  and otherwise allocates a float64 array whose contents are arbitrary; here it is
  filled with zeros. Every sample is overwritten by the loop before the array is
  returned.
\<close>

definition np_empty :: "nat \<Rightarrow> nat \<Rightarrow> nat \<Rightarrow> grid list" where
  "np_empty n h w = replicate n (replicate h (replicate w 0))"

text \<open>
  The assignment \<open>out_array[idx] = value\<close> broadcasts \<open>value\<close> to the shape
  \<open>(d, d)\<close> of \<open>out_array[idx]\<close>: each axis of \<open>value\<close> has length \<open>d\<close> or length one
  (then its single entry is repeated); any other shape is a \<open>ValueError\<close>.
\<close>

definition broadcast_to :: "grid \<Rightarrow> nat \<Rightarrow> error + grid" where
  "broadcast_to v d =
     (let a = nrows v; b = ncols v
      in if (a = d \<or> a = 1) \<and> (b = d \<or> b = 1)
         then Inr (map (\<lambda>r. map (\<lambda>c. v ! (if a = 1 then 0 else r) ! (if b = 1 then 0 else c))
                              [0..<d])
                    [0..<d])
         else Inl ValueError)"

fun down_sample_loop :: "(nat \<times> grid) list \<Rightarrow> int \<Rightarrow> grid list \<Rightarrow> error + grid list" where
  "down_sample_loop [] cmp_dim out_array = Inr out_array"
| "down_sample_loop ((idx, img) # rest) cmp_dim out_array =
     (case median_downsampling img cmp_dim of
        Inl e \<Rightarrow> Inl e
      | Inr v \<Rightarrow>
          (case broadcast_to v (nat cmp_dim) of
             Inl e \<Rightarrow> Inl e
           | Inr v' \<Rightarrow> down_sample_loop rest cmp_dim (out_array[idx := v'])))"

definition down_sample_list :: "grid list \<Rightarrow> int \<Rightarrow> error + grid list" where
  "down_sample_list in_array cmp_dim =
     (if cmp_dim < 0 then Inl ValueError
      else down_sample_loop (enumerate 0 in_array) cmp_dim
             (np_empty (length in_array) (nat cmp_dim) (nat cmp_dim)))"

subsection \<open>\<open>create_training_data\<close>\<close>

text \<open>
  \<open>np.random.poisson(lam=a)\<close> draws one integer for every entry of \<open>a\<close>, with that entry
  as the rate, and returns them in an int64 array of the shape of \<open>a\<close>. It raises
  \<open>ValueError\<close> when a rate is negative or exceeds numpy's limit (close to the largest
  int64). The random source is a parameter: \<open>rng i r c x\<close> is the number drawn for
  the entry at row \<open>r\<close>, column \<open>c\<close> of sample \<open>i\<close>, whose rate is \<open>x\<close>. No property
  below assumes anything about the numbers drawn.
\<close>

type_synonym sampler = "nat \<Rightarrow> nat \<Rightarrow> nat \<Rightarrow> rat \<Rightarrow> int"

definition poisson_lam_max :: rat where
  "poisson_lam_max = 9223372006484770816"

definition lam_ok :: "rat \<Rightarrow> bool" where
  "lam_ok x = (0 \<le> x \<and> x \<le> poisson_lam_max)"

definition poisson_grid :: "(nat \<Rightarrow> nat \<Rightarrow> rat \<Rightarrow> int) \<Rightarrow> grid \<Rightarrow> int list list" where
  "poisson_grid draw g =
     map (\<lambda>(r, row). map (\<lambda>(c, x). draw r c x) (enumerate 0 row)) (enumerate 0 g)"

definition np_random_poisson :: "sampler \<Rightarrow> grid list \<Rightarrow> error + int list list list" where
  "np_random_poisson rng lam =
     (if list_all (list_all (list_all lam_ok)) lam
      then Inr (map (\<lambda>(i, g). poisson_grid (rng i) g) (enumerate 0 lam))
      else Inl ValueError)"

text \<open>\<open>np.clip(a, lo, hi)\<close> is \<open>minimum(maximum(a, lo), hi)\<close>, entry by entry.\<close>

definition clip :: "int \<Rightarrow> int \<Rightarrow> int \<Rightarrow> int" where
  "clip x lo hi = min (max x lo) hi"

definition np_clip :: "int list list list \<Rightarrow> int \<Rightarrow> int \<Rightarrow> int list list list" where
  "np_clip a lo hi = map (map (map (\<lambda>x. clip x lo hi))) a"

text \<open>\<open>a / 255\<close> on an integer array: true division, entry by entry.\<close>

definition scale_255 :: "int list list list \<Rightarrow> grid list" where
  "scale_255 a = map (map (map (\<lambda>x. of_int x / 255))) a"

text \<open>
  \<open>matrix.reshape(n,)\<close> lays the rows of the matrix one after the other (C order) and
  raises \<open>ValueError\<close> when the matrix does not have \<open>n\<close> entries.
\<close>

definition reshape_flat :: "grid \<Rightarrow> int \<Rightarrow> error + rat list" where
  "reshape_flat matrix n =
     (if int (length (concat matrix)) = n then Inr (concat matrix) else Inl ValueError)"

text \<open>The comprehension \<open>[matrix.reshape(n,) for matrix in a]\<close>.\<close>

fun reshape_each :: "grid list \<Rightarrow> int \<Rightarrow> error + rat list list" where
  "reshape_each [] n = Inr []"
| "reshape_each (matrix # rest) n =
     (case reshape_flat matrix n of
        Inl e \<Rightarrow> Inl e
      | Inr v \<Rightarrow> (case reshape_each rest n of Inl e \<Rightarrow> Inl e | Inr vs \<Rightarrow> Inr (v # vs)))"

text \<open>
  \<open>np.array\<close> applied to a Python list of one-dimensional arrays of one common length
  \<open>n\<close> builds a two-dimensional array of shape \<open>(len, n)\<close>; applied to the empty list
  it builds a one-dimensional array of shape \<open>(0,)\<close>. The arrays returned by
  \<open>create_training_data\<close> are kept as the list of their rows, and \<open>np_array_shape\<close>
  gives the shape numpy reports for them.
\<close>

definition np_array_shape :: "rat list list \<Rightarrow> nat list" where
  "np_array_shape vs = (case vs of [] \<Rightarrow> [0] | v # _ \<Rightarrow> [length vs, length v])"

definition create_training_data ::
  "sampler \<Rightarrow> sampler \<Rightarrow> grid list \<Rightarrow> grid list \<Rightarrow> int \<Rightarrow> int
     \<Rightarrow> error + (rat list list \<times> rat list list)" where
  "create_training_data rng_train rng_test clean_train clean_test cmp_dim out_dim =
     (case down_sample_list clean_train cmp_dim of
        Inl e \<Rightarrow> Inl e
      | Inr cmp_train \<Rightarrow>
     (case down_sample_list clean_test cmp_dim of
        Inl e \<Rightarrow> Inl e
      | Inr cmp_test \<Rightarrow>
     (case np_random_poisson rng_train cmp_train of
        Inl e \<Rightarrow> Inl e
      | Inr noisy_train_ \<Rightarrow>
     (case np_random_poisson rng_test cmp_test of
        Inl e \<Rightarrow> Inl e
      | Inr noisy_test_ \<Rightarrow>
     (let noisy_train = np_clip noisy_train_ 0 255;
          noisy_test = np_clip noisy_test_ 0 255
      in (case reshape_each (scale_255 noisy_train) (cmp_dim ^ 2) of
            Inl e \<Rightarrow> Inl e
          | Inr flat_train \<Rightarrow>
         (case reshape_each (scale_255 noisy_test) (cmp_dim ^ 2) of
            Inl e \<Rightarrow> Inl e
          | Inr flat_test \<Rightarrow> Inr (flat_train, flat_test))))))))"

section \<open>The model trainer\<close>

subsection \<open>Label vectors\<close>

text \<open>
  \<open>to_categorical(x, num_classes)\<close> of Keras on a one-dimensional integer array: a
  zero matrix with one row of \<open>num_classes\<close> entries per label, in which
  \<open>categorical[np.arange(batch_size), x] = 1\<close> sets entry \<open>x[i]\<close> of row \<open>i\<close>. The
  index follows numpy's rules: a negative index counts from the end, an index outside
  \<open>-num_classes .. num_classes - 1\<close> raises \<open>IndexError\<close>.
\<close>

definition one_hot_row :: "nat \<Rightarrow> int \<Rightarrow> error + rat list" where
  "one_hot_row num_classes x =
     (let n = int num_classes; j = (if x < 0 then n + x else x)
      in if 0 \<le> j \<and> j < n then Inr ((replicate num_classes 0)[nat j := 1])
         else Inl IndexError)"

fun to_categorical :: "int list \<Rightarrow> nat \<Rightarrow> error + rat list list" where
  "to_categorical [] num_classes = Inr []"
| "to_categorical (x # xs) num_classes =
     (case one_hot_row num_classes x of
        Inl e \<Rightarrow> Inl e
      | Inr row \<Rightarrow>
          (case to_categorical xs num_classes of
             Inl e \<Rightarrow> Inl e
           | Inr rows \<Rightarrow> Inr (row # rows)))"

text \<open>
  The label preparation of the training notebook: \<open>train_labels - 1\<close>, then
  \<open>to_categorical(train_labels, num_classes=26)\<close>. Labels are integers without a
  bound; the letters corpus numbers its classes 1 to 26, and on these the subtraction
  does not wrap in any integer type.
\<close>

definition prepare_labels :: "int list \<Rightarrow> error + rat list list" where
  "prepare_labels train_labels = to_categorical (map (\<lambda>l. l - 1) train_labels) 26"

subsection \<open>\<open>fit_model\<close>\<close>

text \<open>
  A metric history (\<open>fit_hist.history\<close>) is a dictionary from metric names to the list
  of per-epoch values, kept as an association list in insertion order. The training
  procedure of the framework, \<open>in_model.fit\<close>, is a parameter: given the model's
  state, the data, an epoch count, a batch size and the validation split it returns the
  state it leaves the model in, with either the history of the stage or the exception
  it raised. The model object is mutated in place by the source, so \<open>fit_model\<close>
  returns the state of that object together with its outcome, also when it raises.
\<close>

type_synonym ('k, 'v) history = "('k \<times> 'v list) list"

datatype ('k, 'e) fit_error =
    LengthValueError nat nat
  | BatchIndexError
  | HistoryKeyError 'k
  | UnboundLocalError
  | FitRaised 'e

type_synonym ('m, 'x, 'y, 'k, 'v, 'e) fit =
  "'m \<Rightarrow> 'x \<Rightarrow> 'y \<Rightarrow> int \<Rightarrow> int \<Rightarrow> rat \<Rightarrow> 'm \<times> ('e + ('k, 'v) history)"

text \<open>
  The inner loop \<open>for key in fit_hist_all.keys(): fit_hist_all[key] = fit_hist_all[key]
  + fit_hist.history[key]\<close>; a key missing from the new history is a \<open>KeyError\<close>.
\<close>

fun merge_history ::
  "('k, 'v) history \<Rightarrow> ('k, 'v) history \<Rightarrow> ('k, 'e) fit_error + ('k, 'v) history" where
  "merge_history [] new = Inr []"
| "merge_history ((key, vals) # rest) new =
     (case map_of new key of
        None \<Rightarrow> Inl (HistoryKeyError key)
      | Some more \<Rightarrow>
          (case merge_history rest new of
             Inl e \<Rightarrow> Inl e
           | Inr merged \<Rightarrow> Inr ((key, vals @ more) # merged)))"

text \<open>
  The loop over \<open>enumerate(epochs_list)\<close>. The variable \<open>fit_hist_all\<close> is unbound
  (\<open>None\<close>) until the stage with index zero assigns it.
\<close>

fun fit_loop ::
  "('m, 'x, 'y, 'k, 'v, 'e) fit \<Rightarrow> 'x \<Rightarrow> 'y \<Rightarrow> int list \<Rightarrow> (nat \<times> int) list \<Rightarrow> 'm
     \<Rightarrow> ('k, 'v) history option \<Rightarrow> 'm \<times> (('k, 'e) fit_error + ('k, 'v) history option)" where
  "fit_loop fit input_data output_data batch_sizes [] in_model fit_hist_all =
     (in_model, Inr fit_hist_all)"
| "fit_loop fit input_data output_data batch_sizes ((idx, epoch) # rest) in_model fit_hist_all =
     (if length batch_sizes \<le> idx then (in_model, Inl BatchIndexError)
      else
        (case fit in_model input_data output_data epoch (batch_sizes ! idx) (1 / 5) of
           (trained, Inl e) \<Rightarrow> (trained, Inl (FitRaised e))
         | (trained, Inr fit_hist) \<Rightarrow>
             (if idx = 0
              then fit_loop fit input_data output_data batch_sizes rest trained (Some fit_hist)
              else
                (case fit_hist_all of
                   None \<Rightarrow> (trained, Inl UnboundLocalError)
                 | Some hist_all \<Rightarrow>
                     (case merge_history hist_all fit_hist of
                        Inl e \<Rightarrow> (trained, Inl e)
                      | Inr merged \<Rightarrow>
                          fit_loop fit input_data output_data batch_sizes rest trained
                            (Some merged))))))"

definition fit_model ::
  "('m, 'x, 'y, 'k, 'v, 'e) fit \<Rightarrow> 'm \<Rightarrow> int list \<Rightarrow> int list \<Rightarrow> 'x \<Rightarrow> 'y
     \<Rightarrow> 'm \<times> (('k, 'e) fit_error + ('k, 'v) history)" where
  "fit_model fit in_model epochs_list batch_sizes input_data output_data =
     (if length epochs_list \<noteq> length batch_sizes
      then (in_model, Inl (LengthValueError (length epochs_list) (length batch_sizes)))
      else
        (case fit_loop fit input_data output_data batch_sizes (enumerate 0 epochs_list)
                in_model None of
           (trained, Inl e) \<Rightarrow> (trained, Inl e)
         | (trained, Inr None) \<Rightarrow> (trained, Inl UnboundLocalError)
         | (trained, Inr (Some fit_hist_all)) \<Rightarrow> (trained, Inr fit_hist_all)))"

subsection \<open>Staged training, as the specification words it\<close>

text \<open>
  One stage per (epoch count, batch size) pair, in list order, each starting from the
  model the previous stage left: the list of the stages' results.
\<close>

fun run_stages ::
  "('m, 'x, 'y, 'k, 'v, 'e) fit \<Rightarrow> 'x \<Rightarrow> 'y \<Rightarrow> 'm \<Rightarrow> (int \<times> int) list
     \<Rightarrow> ('m \<times> ('e + ('k, 'v) history)) list" where
  "run_stages fit input_data output_data m [] = []"
| "run_stages fit input_data output_data m ((epoch, batch_size) # rest) =
     (let r = fit m input_data output_data epoch batch_size (1 / 5)
      in r # run_stages fit input_data output_data (fst r) rest)"

text \<open>The history a stage returned (empty when the stage raised).\<close>

definition history_of :: "('m \<times> ('e + ('k, 'v) history)) \<Rightarrow> ('k, 'v) history" where
  "history_of r = (case snd r of Inl e \<Rightarrow> [] | Inr h \<Rightarrow> h)"

definition lookup_metric :: "('k, 'v) history \<Rightarrow> 'k \<Rightarrow> 'v list" where
  "lookup_metric h key = (case map_of h key of None \<Rightarrow> [] | Some vals \<Rightarrow> vals)"

text \<open>
  One continuous record: for a metric key, the per-epoch values of every stage, one
  stage after the other.
\<close>

definition continuous_record :: "('k, 'v) history list \<Rightarrow> 'k \<Rightarrow> 'v list" where
  "continuous_record hs key = concat (map (\<lambda>h. lookup_metric h key) hs)"

definition extend_history ::
  "('k, 'v) history \<Rightarrow> ('k, 'v) history list \<Rightarrow> ('k, 'v) history" where
  "extend_history acc hs = map (\<lambda>(key, vals). (key, vals @ continuous_record hs key)) acc"

text \<open>
  What the framework is expected to do in a stage: return a history (rather than
  raise) that reports at least the metrics \<open>keys\<close>.
\<close>

definition stage_ok :: "'k set \<Rightarrow> ('m \<times> ('e + ('k, 'v) history)) \<Rightarrow> bool" where
  "stage_ok keys r = (case snd r of Inl e \<Rightarrow> False | Inr h \<Rightarrow> keys \<subseteq> fst ` set h)"

section \<open>Reference notions for the dataset builder\<close>

text \<open>
  The pixels of block \<open>(i, j)\<close> of an image cut into non-overlapping blocks of side
  \<open>w\<close>, read by their coordinates in the image.
\<close>

definition block_pixels :: "grid \<Rightarrow> nat \<Rightarrow> nat \<Rightarrow> nat \<Rightarrow> rat list" where
  "block_pixels g w i j =
     concat (map (\<lambda>a. map (\<lambda>b. g ! (i * w + a) ! (j * w + b)) [0..<w]) [0..<w])"

text \<open>
  The body of the loop of \<open>down_sample_list\<close> on one image: what is stored at the
  image's index.
\<close>

definition down_sample_one :: "grid \<Rightarrow> int \<Rightarrow> error + grid" where
  "down_sample_one img cmp_dim =
     (case median_downsampling img cmp_dim of
        Inl e \<Rightarrow> Inl e
      | Inr v \<Rightarrow> broadcast_to v (nat cmp_dim))"

text \<open>
  The compressed, noisy, clamped and scaled grid of one image, before it is flattened;
  \<open>draw\<close> is the random source for this image.
\<close>

definition noisy_grid :: "(nat \<Rightarrow> nat \<Rightarrow> rat \<Rightarrow> int) \<Rightarrow> grid \<Rightarrow> int \<Rightarrow> error + grid" where
  "noisy_grid draw img cmp_dim =
     (case down_sample_one img cmp_dim of
        Inl e \<Rightarrow> Inl e
      | Inr g \<Rightarrow>
          if list_all (list_all lam_ok) g
          then Inr (map (map (\<lambda>x. of_int (clip x 0 255) / 255)) (poisson_grid draw g))
          else Inl ValueError)"

text \<open>
  \<open>v.reshape(h, w)\<close>: the vector cut into \<open>h\<close> rows of \<open>w\<close> entries (C order), a
  \<open>ValueError\<close> when it does not have \<open>h * w\<close> entries.
\<close>

definition reshape_2d :: "rat list \<Rightarrow> nat \<Rightarrow> nat \<Rightarrow> error + grid" where
  "reshape_2d v h w =
     (if length v = h * w then Inr (map (\<lambda>r. take w (drop (r * w) v)) [0..<h])
      else Inl ValueError)"

section \<open>Properties of the dataset builder\<close>

text \<open>
  Claim C3. For every input grid (in particular every 28 by 28 grid),
  \<open>median_downsampling\<close> at compression level 28 returns the input grid itself.
\<close>

theorem median_downsampling_level_28_identity:
  "median_downsampling in_image 28 = Inr in_image"
  by (simp add: median_downsampling_def)

subsection \<open>Windows and block medians\<close>

lemma take_drop_nth:
  "r + w \<le> length xs \<Longrightarrow> take w (drop r xs) = map (\<lambda>a. xs ! (r + a)) [0..<w]"
  by (rule nth_equalityI) auto

lemma has_shape_nth: "has_shape h w g \<Longrightarrow> i < h \<Longrightarrow> length (g ! i) = w"
  by (auto simp: has_shape_def list_all_length)

lemma has_shape_ncols: "has_shape h w g \<Longrightarrow> 0 < h \<Longrightarrow> ncols g = w"
  by (cases g) (auto simp: has_shape_def ncols_def)

lemma window_at_pixels:
  assumes "has_shape h k g" and "r + w \<le> h" and "c + w \<le> k"
  shows "window_at g w r c = map (\<lambda>a. map (\<lambda>b. g ! (r + a) ! (c + b)) [0..<w]) [0..<w]"
proof -
  have "take w (drop r g) = map (\<lambda>a. g ! (r + a)) [0..<w]"
    using assms by (intro take_drop_nth) (simp add: has_shape_def)
  moreover have "take w (drop c (g ! (r + a))) = map (\<lambda>b. g ! (r + a) ! (c + b)) [0..<w]"
    if "a < w" for a
    using assms that has_shape_nth [OF assms(1), of "r + a"] by (intro take_drop_nth) simp
  ultimately show ?thesis by (simp add: window_at_def)
qed

lemma window_count: "0 < w \<Longrightarrow> w \<le> n \<Longrightarrow> i < (n - w) div w + 1 \<Longrightarrow> i * w + w \<le> (n::nat)"
proof -
  assume w: "0 < w" "w \<le> n" and "i < (n - w) div w + 1"
  then have "i \<le> (n - w) div w" by simp
  then have "i * w \<le> (n - w) div w * w" by simp
  also have "\<dots> \<le> n - w" by simp
  finally show ?thesis using w by simp
qed

lemma nat_window_count:
  assumes "w \<le> n"
  shows "nat ((int n - int w) div int w + 1) = (n - w) div w + 1"
proof -
  from assms have "(int n - int w) div int w + 1 = int ((n - w) div w + 1)"
    by (simp add: of_nat_diff zdiv_int)
  then show ?thesis by (metis nat_int)
qed

lemma view_as_windows_square:
  assumes "has_shape h k g" and "0 < w" and "w \<le> h" and "w \<le> k"
  shows "view_as_windows g (int w) (int w) =
    Inr (map (\<lambda>i. map (\<lambda>j. window_at g w (i * w) (j * w)) [0..<(k - w) div w + 1])
          [0..<(h - w) div w + 1])"
proof -
  have h: "nrows g = h" using assms(1) by (simp add: has_shape_def nrows_def)
  have k: "ncols g = k" using assms by (intro has_shape_ncols [of h]) auto
  show ?thesis
    using assms by (simp add: view_as_windows_def h k nat_window_count del: of_nat_diff)
qed

lemma median_downsampling_blocks:
  assumes "has_shape 28 28 g" and "0 < level" and "level < 15"
  shows "median_downsampling g (int level) =
    Inr (map (\<lambda>i. map (\<lambda>j. median (block_pixels g (28 div level) i j))
                 [0..<(28 - 28 div level) div (28 div level) + 1])
          [0..<(28 - 28 div level) div (28 div level) + 1])"
proof -
  let ?w = "28 div level"
  have w: "0 < ?w" "?w \<le> 28" using assms by (simp_all add: div_greater_zero_iff)
  have d: "28 div int level = int ?w" by (simp add: zdiv_int)
  have v: "view_as_windows g (int ?w) (int ?w) =
    Inr (map (\<lambda>i. map (\<lambda>j. window_at g ?w (i * ?w) (j * ?w)) [0..<(28 - ?w) div ?w + 1])
          [0..<(28 - ?w) div ?w + 1])"
    using assms(1) w by (intro view_as_windows_square) auto
  have p: "concat (window_at g ?w (i * ?w) (j * ?w)) = block_pixels g ?w i j"
    if "i < (28 - ?w) div ?w + 1" and "j < (28 - ?w) div ?w + 1" for i j
    using window_at_pixels [OF assms(1), of "i * ?w" ?w "j * ?w"]
      window_count [OF w that(1)] window_count [OF w that(2)]
    by (simp add: block_pixels_def)
  show ?thesis
    using assms(2,3) p by (simp add: median_downsampling_def d v median_axes23_def Let_def)
qed

lemma count_prefix:
  assumes "k \<le> length s" and "\<And>i. i < k \<Longrightarrow> P (s ! i)"
  shows "k \<le> length (filter P s)"
proof -
  have "filter P (take k s) = take k s"
    using assms by (intro filter_True) (auto simp: in_set_conv_nth)
  then have "length (filter P (take k s)) = k" using assms(1) by simp
  moreover have "filter P s = filter P (take k s) @ filter P (drop k s)"
    by (metis append_take_drop_id filter_append)
  ultimately show ?thesis by simp
qed

lemma count_suffix:
  assumes "\<And>i. k \<le> i \<Longrightarrow> i < length s \<Longrightarrow> P (s ! i)"
  shows "length s - k \<le> length (filter P s)"
proof -
  have "filter P (drop k s) = drop k s"
    using assms by (intro filter_True) (auto simp: in_set_conv_nth)
  then have "length (filter P (drop k s)) = length s - k" by simp
  moreover have "filter P s = filter P (take k s) @ filter P (drop k s)"
    by (metis append_take_drop_id filter_append)
  ultimately show ?thesis by simp
qed

lemma length_filter_sort: "length (filter P (sort xs)) = length (filter P xs)"
  by (simp add: filter_sort)

text \<open>
  The value computed by \<open>median\<close> is a median in the usual sense: at least half of the
  values are not above it and at least half are not below it.
\<close>

lemma median_between:
  assumes "xs \<noteq> []"
  shows "\<forall>i \<le> (length xs - 1) div 2. sort xs ! i \<le> median xs"
    and "\<forall>i. length xs div 2 \<le> i \<and> i < length xs \<longrightarrow> median xs \<le> sort xs ! i"
proof -
  let ?s = "sort xs" and ?n = "length xs"
  have n: "0 < ?n" using assms by simp
  have mono: "?s ! i \<le> ?s ! j" if "i \<le> j" "j < ?n" for i j
    using that by (intro sorted_nth_mono) simp_all
  show "\<forall>i \<le> (?n - 1) div 2. ?s ! i \<le> median xs"
  proof (intro allI impI)
    fix i assume i: "i \<le> (?n - 1) div 2"
    show "?s ! i \<le> median xs"
    proof (cases "?n mod 2 = 1")
      case True
      then have "median xs = ?s ! (?n div 2)" by (simp add: median_def Let_def)
      moreover have "i \<le> ?n div 2" "?n div 2 < ?n" using i n by auto
      ultimately show ?thesis using mono by simp
    next
      case False
      then have m: "median xs = (?s ! (?n div 2 - 1) + ?s ! (?n div 2)) / 2"
        by (simp add: median_def Let_def)
      from False n have k: "(?n - 1) div 2 = ?n div 2 - 1" "?n div 2 < ?n" by presburger+
      have "?s ! i \<le> ?s ! (?n div 2 - 1)" using i k by (intro mono) auto
      moreover have "?s ! (?n div 2 - 1) \<le> ?s ! (?n div 2)" using k by (intro mono) auto
      ultimately show ?thesis by (simp add: m)
    qed
  qed
  show "\<forall>i. ?n div 2 \<le> i \<and> i < ?n \<longrightarrow> median xs \<le> ?s ! i"
  proof (intro allI impI)
    fix i assume i: "?n div 2 \<le> i \<and> i < ?n"
    show "median xs \<le> ?s ! i"
    proof (cases "?n mod 2 = 1")
      case True
      then have "median xs = ?s ! (?n div 2)" by (simp add: median_def Let_def)
      then show ?thesis using mono i by simp
    next
      case False
      then have m: "median xs = (?s ! (?n div 2 - 1) + ?s ! (?n div 2)) / 2"
        by (simp add: median_def Let_def)
      have "?s ! (?n div 2) \<le> ?s ! i" using i by (intro mono) auto
      moreover have "?s ! (?n div 2 - 1) \<le> ?s ! (?n div 2)" using i by (intro mono) auto
      ultimately show ?thesis by (simp add: m)
    qed
  qed
qed

lemma median_halves:
  assumes "xs \<noteq> []"
  shows "length xs \<le> 2 * length (filter (\<lambda>x. x \<le> median xs) xs)"
    and "length xs \<le> 2 * length (filter (\<lambda>x. median xs \<le> x) xs)"
proof -
  let ?s = "sort xs" and ?n = "length xs"
  have n: "0 < ?n" using assms by simp
  have b: "(?n - 1) div 2 + 1 \<le> ?n" using n by presburger
  have "(?n - 1) div 2 + 1 \<le> length (filter (\<lambda>x. x \<le> median xs) ?s)"
  proof (rule count_prefix)
    show "(?n - 1) div 2 + 1 \<le> length ?s" using b by simp
  next
    fix i
    assume "i < (?n - 1) div 2 + 1"
    then have "i \<le> (?n - 1) div 2" by simp
    then show "?s ! i \<le> median xs" using median_between(1) [OF assms] by blast
  qed
  then show "?n \<le> 2 * length (filter (\<lambda>x. x \<le> median xs) xs)"
    unfolding length_filter_sort by presburger
  have "length ?s - ?n div 2 \<le> length (filter (\<lambda>x. median xs \<le> x) ?s)"
  proof (rule count_suffix)
    fix i
    assume "?n div 2 \<le> i" and "i < length ?s"
    then show "median xs \<le> ?s ! i" using median_between(2) [OF assms] by simp
  qed
  then show "?n \<le> 2 * length (filter (\<lambda>x. median xs \<le> x) xs)"
    unfolding length_filter_sort length_sort by presburger
qed

lemma length_block_pixels: "length (block_pixels g w i j) = w * w"
  by (simp add: block_pixels_def length_concat comp_def sum_list_triv)

lemma median_replicate: "0 < n \<Longrightarrow> median (replicate n c) = c"
proof -
  assume n: "0 < n"
  have s: "sort (replicate n c) = replicate n c"
    by (rule sort_key_id_if_sorted) (simp add: sorted_replicate)
  have "n div 2 < n" using n by simp
  moreover have "n div 2 - 1 < n" using n by simp
  ultimately show ?thesis by (simp add: median_def s Let_def)
qed

lemma concat_replicate_replicate:
  "concat (replicate n (replicate w c)) = replicate (n * w) c"
  by (induction n) (simp_all add: replicate_add)

lemma block_pixels_uniform:
  assumes "i * w + w \<le> 28" and "j * w + w \<le> 28"
  shows "block_pixels (replicate 28 (replicate 28 c)) w i j = replicate (w * w) c"
proof -
  have "map (\<lambda>b. replicate 28 (replicate 28 c) ! (i * w + a) ! (j * w + b)) [0..<w]
      = replicate w c" if "a < w" for a
    using assms that by (intro nth_equalityI) auto
  then have "map (\<lambda>a. map (\<lambda>b. replicate 28 (replicate 28 c) ! (i * w + a) ! (j * w + b)) [0..<w]) [0..<w]
      = replicate w (replicate w c)"
    by (intro nth_equalityI) auto
  then show ?thesis
    by (simp only: block_pixels_def concat_replicate_replicate)
qed

text \<open>
  Claim C2. For a 28 by 28 grid and a level among 4, 7 and 14, \<open>median_downsampling\<close>
  returns a grid of \<open>level\<close> rows and \<open>level\<close> columns whose entry \<open>(i, j)\<close> is the
  median of the pixels of block \<open>(i, j)\<close> of side \<open>28 div level\<close>, an exact median: at
  least half of the block's pixels are not above it and at least half are not below it.
  On an image whose pixels all equal \<open>c\<close> every entry is \<open>c\<close> (for instance 100 at
  level 4).
\<close>

theorem median_downsampling_block_median:
  assumes "has_shape 28 28 in_image" and "level \<in> {4, 7, 14}"
  shows "\<exists>out. median_downsampling in_image (int level) = Inr out
           \<and> has_shape level level out
           \<and> (\<forall>i < level. \<forall>j < level.
                 out ! i ! j = median (block_pixels in_image (28 div level) i j)
                 \<and> length (block_pixels in_image (28 div level) i j)
                     \<le> 2 * length (filter (\<lambda>x. x \<le> out ! i ! j)
                                    (block_pixels in_image (28 div level) i j))
                 \<and> length (block_pixels in_image (28 div level) i j)
                     \<le> 2 * length (filter (\<lambda>x. out ! i ! j \<le> x)
                                    (block_pixels in_image (28 div level) i j)))
           \<and> (in_image = replicate 28 (replicate 28 c)
                 \<longrightarrow> out = replicate level (replicate level c))"
proof -
  let ?w = "28 div level"
  let ?out = "map (\<lambda>i. map (\<lambda>j. median (block_pixels in_image ?w i j)) [0..<level]) [0..<level]"
  from assms(2) have l: "0 < level" "level < 15" "(28 - ?w) div ?w + 1 = level" "level * ?w = 28"
    by auto
  have r: "median_downsampling in_image (int level) = Inr ?out"
    using median_downsampling_blocks [OF assms(1) l(1) l(2)] unfolding l(3) .
  have s: "has_shape level level ?out"
    by (simp add: has_shape_def list_all_iff)
  have u: "?out = replicate level (replicate level c)"
    if "in_image = replicate 28 (replicate 28 c)"
  proof -
    have "median (block_pixels in_image ?w i j) = c" if "i < level" "j < level" for i j
    proof -
      have "Suc i * ?w \<le> level * ?w" "Suc j * ?w \<le> level * ?w"
        using that by (simp_all only: mult_le_mono1 Suc_leI)
      then have "i * ?w + ?w \<le> 28" "j * ?w + ?w \<le> 28" using l(4) by simp_all
      then have "block_pixels in_image ?w i j = replicate (?w * ?w) c"
        using \<open>in_image = replicate 28 (replicate 28 c)\<close> by (simp add: block_pixels_uniform)
      moreover have "0 < ?w * ?w" using l(4) by (cases "?w") auto
      ultimately show ?thesis by (simp add: median_replicate)
    qed
    then show ?thesis by (intro nth_equalityI) auto
  qed
  have ne: "block_pixels in_image ?w i j \<noteq> []" for i j
  proof -
    have "0 < ?w * ?w" using l(4) by (cases "?w") auto
    then have "0 < length (block_pixels in_image ?w i j)" by (simp only: length_block_pixels)
    then show ?thesis by auto
  qed
  have h: "?out ! i ! j = median (block_pixels in_image ?w i j)
      \<and> length (block_pixels in_image ?w i j)
          \<le> 2 * length (filter (\<lambda>x. x \<le> ?out ! i ! j) (block_pixels in_image ?w i j))
      \<and> length (block_pixels in_image ?w i j)
          \<le> 2 * length (filter (\<lambda>x. ?out ! i ! j \<le> x) (block_pixels in_image ?w i j))"
    if "i < level" "j < level" for i j
  proof -
    have e: "?out ! i ! j = median (block_pixels in_image ?w i j)" using that by simp
    show ?thesis unfolding e using median_halves [OF ne [of i j]] by simp
  qed
  from r s u h show ?thesis by blast
qed

theorem median_downsampling_block_median_witness:
  "has_shape 28 28 (replicate 28 (replicate 28 100))
   \<and> median_downsampling (replicate 28 (replicate 28 100)) 4 = Inr (replicate 4 (replicate 4 100))"
  using median_downsampling_block_median [of "replicate 28 (replicate 28 100)" 4 100]
  by (auto simp: has_shape_def list_all_iff)

subsection \<open>The loop of \<open>down_sample_list\<close>\<close>

lemma broadcast_to_shape: "broadcast_to v d = Inr g \<Longrightarrow> has_shape d d g"
  by (auto simp: broadcast_to_def Let_def has_shape_def list_all_iff split: if_splits)

lemma broadcast_to_same:
  assumes "has_shape d d v"
  shows "broadcast_to v d = Inr v"
proof -
  have n: "nrows v = d" using assms by (simp add: has_shape_def nrows_def)
  have c: "ncols v = d" using assms by (cases v) (auto simp: has_shape_def ncols_def)
  have row: "map (\<lambda>c. v ! (if d = 1 then 0 else r) ! (if d = 1 then 0 else c)) [0..<d] = v ! r"
    if "r < d" for r
  proof (rule nth_equalityI)
    show "length (map (\<lambda>c. v ! (if d = 1 then 0 else r) ! (if d = 1 then 0 else c)) [0..<d])
        = length (v ! r)"
      using assms that by (simp add: has_shape_nth)
  next
    fix j
    assume "j < length (map (\<lambda>c. v ! (if d = 1 then 0 else r) ! (if d = 1 then 0 else c)) [0..<d])"
    then have "j < d" by simp
    with that show "map (\<lambda>c. v ! (if d = 1 then 0 else r) ! (if d = 1 then 0 else c)) [0..<d] ! j
        = v ! r ! j"
      by auto
  qed
  have "map (\<lambda>r. map (\<lambda>c. v ! (if d = 1 then 0 else r) ! (if d = 1 then 0 else c)) [0..<d]) [0..<d] = v"
    using assms row by (intro nth_equalityI) (simp_all add: has_shape_def)
  then show ?thesis by (simp add: broadcast_to_def n c)
qed

lemma broadcast_to_mismatch:
  "has_shape n n v \<Longrightarrow> n \<noteq> d \<Longrightarrow> n \<noteq> 1 \<Longrightarrow> broadcast_to v d = Inl ValueError"
  by (simp add: broadcast_to_def has_shape_def nrows_def)

lemma down_sample_loop_result:
  "down_sample_loop (enumerate k xs) d out = Inr res \<Longrightarrow> k + length xs \<le> length out \<Longrightarrow>
   length res = length out
   \<and> (\<forall>i < length xs. down_sample_one (xs ! i) d = Inr (res ! (k + i)))
   \<and> (\<forall>i < k. res ! i = out ! i)"
proof (induction xs arbitrary: k out)
  case Nil
  then show ?case by simp
next
  case (Cons x xs)
  from Cons.prems(1) obtain v where v: "down_sample_one x d = Inr v"
    and l: "down_sample_loop (enumerate (Suc k) xs) d (out[k := v]) = Inr res"
    by (auto simp: down_sample_one_def split: sum.splits)
  from Cons.prems(2) have "Suc k + length xs \<le> length (out[k := v])" by simp
  from Cons.IH [OF l this]
  have ih: "length res = length out"
    "\<forall>i < length xs. down_sample_one (xs ! i) d = Inr (res ! (Suc k + i))"
    "\<forall>i < Suc k. res ! i = out[k := v] ! i"
    by simp_all
  from ih(3) Cons.prems(2) have k: "res ! k = v" by simp
  have "down_sample_one ((x # xs) ! i) d = Inr (res ! (k + i))" if "i < length (x # xs)" for i
    using that ih(2) k v by (cases i) auto
  moreover have "\<forall>i < k. res ! i = out ! i" using ih(3) by auto
  ultimately show ?case using ih(1) by blast
qed

lemma down_sample_loop_total:
  "\<forall>x \<in> set xs. \<exists>g. down_sample_one x d = Inr g \<Longrightarrow>
   \<exists>res. down_sample_loop (enumerate k xs) d out = Inr res"
proof (induction xs arbitrary: k out)
  case Nil
  then show ?case by simp
next
  case (Cons x xs)
  then obtain g where "down_sample_one x d = Inr g" by auto
  then show ?case
    using Cons.IH [of "Suc k" "out[k := g]"] Cons.prems
    by (auto simp: down_sample_one_def split: sum.splits)
qed

lemma down_sample_list_result:
  assumes "down_sample_list in_array cmp_dim = Inr out"
  shows "length out = length in_array"
    and "i < length in_array \<Longrightarrow> down_sample_one (in_array ! i) cmp_dim = Inr (out ! i)"
    and "0 \<le> cmp_dim"
    and "i < length in_array \<Longrightarrow> has_shape (nat cmp_dim) (nat cmp_dim) (out ! i)"
proof -
  from assms have d: "0 \<le> cmp_dim"
    and l: "down_sample_loop (enumerate 0 in_array) cmp_dim
              (np_empty (length in_array) (nat cmp_dim) (nat cmp_dim)) = Inr out"
    by (auto simp: down_sample_list_def split: if_splits)
  have r: "length out = length in_array
      \<and> (\<forall>i < length in_array. down_sample_one (in_array ! i) cmp_dim = Inr (out ! (0 + i)))
      \<and> (\<forall>i < 0. out ! i =
            np_empty (length in_array) (nat cmp_dim) (nat cmp_dim) ! i)"
    using down_sample_loop_result [OF l] by (simp add: np_empty_def)
  show "length out = length in_array" using r by simp
  show "0 \<le> cmp_dim" by (rule d)
  show o: "down_sample_one (in_array ! i) cmp_dim = Inr (out ! i)" if "i < length in_array"
    using r that by simp
  show "has_shape (nat cmp_dim) (nat cmp_dim) (out ! i)" if "i < length in_array"
    using o [OF that] by (auto simp: down_sample_one_def split: sum.splits dest: broadcast_to_shape)
qed

lemma reshape_each_result:
  "reshape_each gs n = Inr vs \<Longrightarrow>
   vs = map concat gs \<and> (\<forall>g \<in> set gs. int (length (concat g)) = n)"
  by (induction gs arbitrary: vs) (auto simp: reshape_flat_def split: sum.splits if_splits)

lemma reshape_each_total:
  "\<forall>g \<in> set gs. int (length (concat g)) = n \<Longrightarrow> reshape_each gs n = Inr (map concat gs)"
  by (induction gs) (auto simp: reshape_flat_def)

subsection \<open>The pipeline of \<open>create_training_data\<close>\<close>

lemma has_shape_poisson_grid: "has_shape h w g \<Longrightarrow> has_shape h w (poisson_grid draw g)"
  by (auto simp: has_shape_def list_all_iff poisson_grid_def in_set_enumerate_eq)

lemma has_shape_map_map: "has_shape h w g \<Longrightarrow> has_shape h w (map (map f) g)"
  by (auto simp: has_shape_def list_all_iff)

lemma length_concat_rows:
  "list_all (\<lambda>r. length r = w) g \<Longrightarrow> length (concat g) = length g * w"
  by (induction g) auto

lemma rows_of_concat:
  "list_all (\<lambda>r. length r = w) g \<Longrightarrow>
   map (\<lambda>r. take w (drop (r * w) (concat g))) [0..<length g] = g"
proof (induction g)
  case Nil
  then show ?case by simp
next
  case (Cons row g)
  then have "length row = w" and "map (\<lambda>r. take w (drop (r * w) (concat g))) [0..<length g] = g"
    by simp_all
  then show ?case by (simp add: map_upt_Suc del: upt_Suc)
qed

lemma reshape_2d_concat: "has_shape h w g \<Longrightarrow> reshape_2d (concat g) h w = Inr g"
  using length_concat_rows [of w g] rows_of_concat [of w g]
  by (auto simp: reshape_2d_def has_shape_def)

text \<open>One corpus through the pipeline of \<open>create_training_data\<close>.\<close>

lemma noisy_side:
  assumes c: "down_sample_list clean d = Inr cmp"
    and p: "np_random_poisson rng cmp = Inr noisy"
    and r: "reshape_each (scale_255 (np_clip noisy 0 255)) n = Inr flat"
  shows "length flat = length clean"
    and "i < length clean \<Longrightarrow>
      \<exists>g. noisy_grid (rng i) (clean ! i) d = Inr g \<and> has_shape (nat d) (nat d) g
        \<and> flat ! i = concat g"
proof -
  from p have ok: "list_all (list_all (list_all lam_ok)) cmp"
    and noisy: "noisy = map (\<lambda>(i, g). poisson_grid (rng i) g) (enumerate 0 cmp)"
    by (auto simp: np_random_poisson_def split: if_splits)
  from r have flat: "flat = map concat (scale_255 (np_clip noisy 0 255))"
    by (simp add: reshape_each_result)
  have len: "length cmp = length clean" using c by (rule down_sample_list_result)
  show "length flat = length clean"
    by (simp add: flat noisy len scale_255_def np_clip_def)
  show "\<exists>g. noisy_grid (rng i) (clean ! i) d = Inr g \<and> has_shape (nat d) (nat d) g
        \<and> flat ! i = concat g" if i: "i < length clean"
  proof -
    let ?g = "map (map (\<lambda>x. of_int (clip x 0 255) / 255)) (poisson_grid (rng i) (cmp ! i))"
    have one: "down_sample_one (clean ! i) d = Inr (cmp ! i)"
      using c i by (rule down_sample_list_result)
    have shape: "has_shape (nat d) (nat d) (cmp ! i)"
      using c i by (rule down_sample_list_result)
    have "list_all (list_all lam_ok) (cmp ! i)"
      using ok i len by (simp add: list_all_length)
    with one have "noisy_grid (rng i) (clean ! i) d = Inr ?g"
      by (simp add: noisy_grid_def)
    moreover have "has_shape (nat d) (nat d) ?g"
      using shape by (intro has_shape_map_map has_shape_poisson_grid)
    moreover have "flat ! i = concat ?g"
      using i len by (simp add: flat noisy scale_255_def np_clip_def nth_enumerate_eq comp_def)
    ultimately show ?thesis by blast
  qed
qed

lemma create_training_data_sides:
  assumes "create_training_data rng_train rng_test clean_train clean_test cmp_dim out_dim
             = Inr (noisy_train, noisy_test)"
  obtains cmp_train cmp_test drawn_train drawn_test where
    "down_sample_list clean_train cmp_dim = Inr cmp_train"
    "np_random_poisson rng_train cmp_train = Inr drawn_train"
    "reshape_each (scale_255 (np_clip drawn_train 0 255)) (cmp_dim ^ 2) = Inr noisy_train"
    "down_sample_list clean_test cmp_dim = Inr cmp_test"
    "np_random_poisson rng_test cmp_test = Inr drawn_test"
    "reshape_each (scale_255 (np_clip drawn_test 0 255)) (cmp_dim ^ 2) = Inr noisy_test"
  using assms by (auto simp: create_training_data_def Let_def split: sum.splits)

text \<open>
  Claim C8. When \<open>down_sample_list\<close> returns, its output has as many samples as its
  input and sample \<open>i\<close> of the output is the downsampling of sample \<open>i\<close> of the
  input; when \<open>create_training_data\<close> returns, each of its two outputs has as many
  samples as the corresponding input and sample \<open>i\<close> is the flattened noisy grid of
  input sample \<open>i\<close>, drawn with the random numbers of index \<open>i\<close>. Nothing is
  reordered.
\<close>

theorem builder_index_alignment:
  "(down_sample_list in_array cmp_dim = Inr out_array \<longrightarrow>
      length out_array = length in_array
      \<and> (\<forall>i < length in_array. down_sample_one (in_array ! i) cmp_dim = Inr (out_array ! i)))
   \<and> (create_training_data rng_train rng_test clean_train clean_test cmp_dim out_dim
         = Inr (noisy_train, noisy_test) \<longrightarrow>
      length noisy_train = length clean_train
      \<and> length noisy_test = length clean_test
      \<and> (\<forall>i < length clean_train.
            \<exists>g. noisy_grid (rng_train i) (clean_train ! i) cmp_dim = Inr g
              \<and> noisy_train ! i = concat g)
      \<and> (\<forall>i < length clean_test.
            \<exists>g. noisy_grid (rng_test i) (clean_test ! i) cmp_dim = Inr g
              \<and> noisy_test ! i = concat g))"
proof (intro conjI impI)
  assume d: "down_sample_list in_array cmp_dim = Inr out_array"
  show "length out_array = length in_array" using d by (rule down_sample_list_result)
  show "\<forall>i < length in_array. down_sample_one (in_array ! i) cmp_dim = Inr (out_array ! i)"
    using down_sample_list_result(2) [OF d] by blast
next
  assume "create_training_data rng_train rng_test clean_train clean_test cmp_dim out_dim
         = Inr (noisy_train, noisy_test)"
  then obtain cmp_train cmp_test drawn_train drawn_test where s:
    "down_sample_list clean_train cmp_dim = Inr cmp_train"
    "np_random_poisson rng_train cmp_train = Inr drawn_train"
    "reshape_each (scale_255 (np_clip drawn_train 0 255)) (cmp_dim ^ 2) = Inr noisy_train"
    "down_sample_list clean_test cmp_dim = Inr cmp_test"
    "np_random_poisson rng_test cmp_test = Inr drawn_test"
    "reshape_each (scale_255 (np_clip drawn_test 0 255)) (cmp_dim ^ 2) = Inr noisy_test"
    by (rule create_training_data_sides)
  show "length noisy_train = length clean_train" using s(1-3) by (rule noisy_side)
  show "length noisy_test = length clean_test" using s(4-6) by (rule noisy_side)
  show "\<forall>i < length clean_train.
      \<exists>g. noisy_grid (rng_train i) (clean_train ! i) cmp_dim = Inr g \<and> noisy_train ! i = concat g"
    using noisy_side(2) [OF s(1-3)] by blast
  show "\<forall>i < length clean_test.
      \<exists>g. noisy_grid (rng_test i) (clean_test ! i) cmp_dim = Inr g \<and> noisy_test ! i = concat g"
    using noisy_side(2) [OF s(4-6)] by blast
qed

theorem builder_index_alignment_witness:
  "create_training_data (\<lambda>i r c x. \<lfloor>x\<rfloor>) (\<lambda>i r c x. \<lfloor>x\<rfloor> + 200)
      [replicate 28 (replicate 28 102), replicate 28 (replicate 28 51)]
      [replicate 28 (replicate 28 51)] 4 28
     = Inr ([replicate 16 (2 / 5), replicate 16 (1 / 5)], [replicate 16 (251 / 255)])
   \<and> length [replicate 16 (2 / 5 :: rat), replicate 16 (1 / 5)] = 2
   \<and> noisy_grid (\<lambda>r c x. \<lfloor>x\<rfloor>) (replicate 28 (replicate 28 51)) 4
       = Inr (replicate 4 (replicate 4 (1 / 5)))
   \<and> [replicate 16 (2 / 5), replicate 16 (1 / 5)] ! 1 = concat (replicate 4 (replicate 4 (1 / 5 :: rat)))"
proof -
  have run: "create_training_data (\<lambda>i r c x. \<lfloor>x\<rfloor>) (\<lambda>i r c x. \<lfloor>x\<rfloor> + 200)
      [replicate 28 (replicate 28 102), replicate 28 (replicate 28 51)]
      [replicate 28 (replicate 28 51)] 4 28
     = Inr ([replicate 16 (2 / 5), replicate 16 (1 / 5)], [replicate 16 (251 / 255)])"
    by code_simp
  have grid: "noisy_grid (\<lambda>r c x. \<lfloor>x\<rfloor>) (replicate 28 (replicate 28 51)) 4
       = Inr (replicate 4 (replicate 4 (1 / 5)))"
    by code_simp
  from builder_index_alignment [THEN conjunct2, rule_format, OF run]
  have len: "length [replicate 16 (2 / 5 :: rat), replicate 16 (1 / 5)]
      = length [replicate 28 (replicate 28 (102::rat)), replicate 28 (replicate 28 51)]"
    and smp: "\<forall>i < length [replicate 28 (replicate 28 (102::rat)), replicate 28 (replicate 28 51)].
      \<exists>g. noisy_grid (\<lambda>r c x. \<lfloor>x\<rfloor>)
            ([replicate 28 (replicate 28 102), replicate 28 (replicate 28 51)] ! i) 4 = Inr g
        \<and> [replicate 16 (2 / 5), replicate 16 (1 / 5)] ! i = concat g"
    by blast+
  from smp have "\<exists>g. noisy_grid (\<lambda>r c x. \<lfloor>x\<rfloor>) (replicate 28 (replicate 28 51)) 4 = Inr g
        \<and> [replicate 16 (2 / 5), replicate 16 (1 / 5 :: rat)] ! 1 = concat g"
    by (metis One_nat_def length_Cons lessI list.size(3) nth_Cons_0 nth_Cons_Suc)
  with grid have "[replicate 16 (2 / 5), replicate 16 (1 / 5 :: rat)] ! 1
      = concat (replicate 4 (replicate 4 (1 / 5)))"
    by auto
  with run grid len show ?thesis by simp
qed

lemma clip_bounds: "lo \<le> hi \<Longrightarrow> lo \<le> clip x lo hi \<and> clip x lo hi \<le> hi"
  by (auto simp: clip_def)

lemma scaled_bounds:
  "0 \<le> (of_int (clip y 0 255) / 255 :: rat) \<and> (of_int (clip y 0 255) / 255 :: rat) \<le> 1"
  using clip_bounds [of 0 255 y] by simp

lemma flat_values:
  assumes "reshape_each (scale_255 (np_clip drawn 0 255)) n = Inr flat"
    and "v \<in> set flat" and "p \<in> set v"
  shows "\<exists>y. p = of_int (clip y 0 255) / 255"
proof -
  from assms(1) have "flat = map concat (scale_255 (np_clip drawn 0 255))"
    by (simp add: reshape_each_result)
  with assms(2,3) obtain g row x where "g \<in> set drawn" "row \<in> set g" "x \<in> set row"
    and "p = of_int (clip x 0 255) / 255"
    unfolding scale_255_def np_clip_def by (auto simp del: of_int_eq_iff)
  then show ?thesis by blast
qed

text \<open>
  Claim C4. Every value of a clamped array lies between 0 and 255, and every value
  stored in the arrays that \<open>create_training_data\<close> returns is such a clamped integer
  divided by 255, hence lies between 0 and 1, whatever numbers were drawn.
\<close>

theorem noisy_values_in_range:
  "(\<forall>g \<in> set (np_clip drawn 0 255). \<forall>row \<in> set g. \<forall>x \<in> set row. 0 \<le> x \<and> x \<le> 255)
   \<and> (create_training_data rng_train rng_test clean_train clean_test cmp_dim out_dim
         = Inr (noisy_train, noisy_test) \<longrightarrow>
       (\<forall>v \<in> set noisy_train \<union> set noisy_test. \<forall>p \<in> set v.
          0 \<le> p \<and> p \<le> 1
          \<and> (\<exists>y. 0 \<le> clip y 0 255 \<and> clip y 0 255 \<le> 255 \<and> p = of_int (clip y 0 255) / 255)))"
proof (intro conjI impI ballI)
  fix g row x
  assume "g \<in> set (np_clip drawn 0 255)" "row \<in> set g" "x \<in> set row"
  then obtain y where "x = clip y 0 255" by (auto simp: np_clip_def)
  then show "0 \<le> x" "x \<le> 255" using clip_bounds [of 0 255 y] by simp_all
next
  fix v p
  assume run: "create_training_data rng_train rng_test clean_train clean_test cmp_dim out_dim
         = Inr (noisy_train, noisy_test)"
    and v: "v \<in> set noisy_train \<union> set noisy_test" and p: "p \<in> set v"
  from run obtain cmp_train cmp_test drawn_train drawn_test where s:
    "down_sample_list clean_train cmp_dim = Inr cmp_train"
    "np_random_poisson rng_train cmp_train = Inr drawn_train"
    "reshape_each (scale_255 (np_clip drawn_train 0 255)) (cmp_dim ^ 2) = Inr noisy_train"
    "down_sample_list clean_test cmp_dim = Inr cmp_test"
    "np_random_poisson rng_test cmp_test = Inr drawn_test"
    "reshape_each (scale_255 (np_clip drawn_test 0 255)) (cmp_dim ^ 2) = Inr noisy_test"
    by (rule create_training_data_sides)
  from v p s(3) s(6) obtain y where y: "p = of_int (clip y 0 255) / 255"
    using flat_values by blast
  show "0 \<le> p" "p \<le> 1" using y scaled_bounds [of y] by simp_all
  show "\<exists>y. 0 \<le> clip y 0 255 \<and> clip y 0 255 \<le> 255 \<and> p = of_int (clip y 0 255) / 255"
    using y clip_bounds [of 0 255 y] by auto
qed

theorem noisy_values_in_range_witness:
  "create_training_data (\<lambda>i r c x. 300) (\<lambda>i r c x. - 4)
      [replicate 28 (replicate 28 100)] [replicate 28 (replicate 28 100)] 4 28
     = Inr ([replicate 16 1], [replicate 16 0])
   \<and> list_all (list_all (\<lambda>p. 0 \<le> p \<and> p \<le> 1)) ([replicate 16 (1::rat)] @ [replicate 16 0])
   \<and> np_clip [[[300, - 4, 17]]] 0 255 = [[[255, 0, 17]]]"
proof -
  have run: "create_training_data (\<lambda>i r c x. 300) (\<lambda>i r c x. - 4)
      [replicate 28 (replicate 28 100)] [replicate 28 (replicate 28 100)] 4 28
     = Inr ([replicate 16 1], [replicate 16 0])"
    by code_simp
  have "\<forall>v \<in> set [replicate 16 (1::rat)] \<union> set [replicate 16 0]. \<forall>p \<in> set v. 0 \<le> p \<and> p \<le> 1"
    using noisy_values_in_range [THEN conjunct2, rule_format, OF run] by blast
  then have "list_all (list_all (\<lambda>p. 0 \<le> p \<and> p \<le> 1)) ([replicate 16 (1::rat)] @ [replicate 16 0])"
    by (simp add: list_all_iff)
  moreover have "np_clip [[[300, - 4, 17]]] 0 255 = [[[255, 0, 17]]]"
    by (simp add: np_clip_def clip_def)
  ultimately show ?thesis using run by simp
qed

subsection \<open>Flattening\<close>

lemma np_array_shape_nonempty:
  "vs \<noteq> [] \<Longrightarrow> np_array_shape vs = [length vs, length (vs ! 0)]"
  by (cases vs) (simp_all add: np_array_shape_def)

lemma noisy_side_flat:
  assumes c: "down_sample_list clean d = Inr cmp"
    and p: "np_random_poisson rng cmp = Inr noisy"
    and r: "reshape_each (scale_255 (np_clip noisy 0 255)) n = Inr flat"
    and i: "i < length clean"
  shows "\<exists>g. noisy_grid (rng i) (clean ! i) d = Inr g \<and> has_shape (nat d) (nat d) g
        \<and> flat ! i = concat g \<and> length (flat ! i) = nat d ^ 2
        \<and> reshape_2d (flat ! i) (nat d) (nat d) = Inr g"
proof -
  from noisy_side(2) [OF c p r i] obtain g
    where g: "noisy_grid (rng i) (clean ! i) d = Inr g" "has_shape (nat d) (nat d) g"
      "flat ! i = concat g"
    by blast
  from g(2) have "length (concat g) = nat d * nat d"
    using length_concat_rows [of "nat d" g] by (simp add: has_shape_def)
  with g reshape_2d_concat [OF g(2)] show ?thesis by (auto simp: power2_eq_square)
qed

lemma noisy_side_shape:
  assumes c: "down_sample_list clean d = Inr cmp"
    and p: "np_random_poisson rng cmp = Inr noisy"
    and r: "reshape_each (scale_255 (np_clip noisy 0 255)) n = Inr flat"
  shows "np_array_shape flat = (if clean = [] then [0] else [length clean, nat d ^ 2])"
proof (cases "clean = []")
  case True
  with noisy_side(1) [OF c p r] show ?thesis by (simp add: np_array_shape_def)
next
  case False
  then have i: "0 < length clean" by simp
  with noisy_side(1) [OF c p r] have ne: "flat \<noteq> []" by auto
  from noisy_side_flat [OF c p r i] have "length (flat ! 0) = nat d ^ 2" by blast
  with False ne noisy_side(1) [OF c p r] show ?thesis by (simp add: np_array_shape_nonempty)
qed

text \<open>
  Claim C5, amended. When \<open>create_training_data\<close> returns, every emitted sample is
  the row-major flattening of its \<open>cmp_dim\<close> by \<open>cmp_dim\<close> noisy grid: it has
  \<open>cmp_dim\<close> squared entries and reshaping it to \<open>cmp_dim\<close> by \<open>cmp_dim\<close> gives that
  grid back. For a non-empty corpus the emitted array has the shape (number of samples,
  \<open>cmp_dim\<close> squared).
\<close>

theorem flattened_samples_row_major:
  assumes "create_training_data rng_train rng_test clean_train clean_test cmp_dim out_dim
             = Inr (noisy_train, noisy_test)"
  shows "(\<forall>i < length clean_train.
            \<exists>g. noisy_grid (rng_train i) (clean_train ! i) cmp_dim = Inr g
              \<and> has_shape (nat cmp_dim) (nat cmp_dim) g
              \<and> noisy_train ! i = concat g
              \<and> length (noisy_train ! i) = nat cmp_dim ^ 2
              \<and> reshape_2d (noisy_train ! i) (nat cmp_dim) (nat cmp_dim) = Inr g)
       \<and> (\<forall>i < length clean_test.
            \<exists>g. noisy_grid (rng_test i) (clean_test ! i) cmp_dim = Inr g
              \<and> has_shape (nat cmp_dim) (nat cmp_dim) g
              \<and> noisy_test ! i = concat g
              \<and> length (noisy_test ! i) = nat cmp_dim ^ 2
              \<and> reshape_2d (noisy_test ! i) (nat cmp_dim) (nat cmp_dim) = Inr g)
       \<and> (clean_train \<noteq> [] \<longrightarrow>
            np_array_shape noisy_train = [length clean_train, nat cmp_dim ^ 2])
       \<and> (clean_test \<noteq> [] \<longrightarrow>
            np_array_shape noisy_test = [length clean_test, nat cmp_dim ^ 2])"
proof -
  from assms obtain cmp_train cmp_test drawn_train drawn_test where s:
    "down_sample_list clean_train cmp_dim = Inr cmp_train"
    "np_random_poisson rng_train cmp_train = Inr drawn_train"
    "reshape_each (scale_255 (np_clip drawn_train 0 255)) (cmp_dim ^ 2) = Inr noisy_train"
    "down_sample_list clean_test cmp_dim = Inr cmp_test"
    "np_random_poisson rng_test cmp_test = Inr drawn_test"
    "reshape_each (scale_255 (np_clip drawn_test 0 255)) (cmp_dim ^ 2) = Inr noisy_test"
    by (rule create_training_data_sides)
  show ?thesis
    using noisy_side_flat [OF s(1-3)] noisy_side_flat [OF s(4-6)]
      noisy_side_shape [OF s(1-3)] noisy_side_shape [OF s(4-6)]
    by simp
qed

theorem flattened_samples_row_major_witness:
  "create_training_data (\<lambda>i r c x. int (4 * r + c)) (\<lambda>i r c x. \<lfloor>x\<rfloor>)
      [replicate 28 (replicate 28 100)] [replicate 28 (replicate 28 51)] 4 28
     = Inr ([[0, 1 / 255, 2 / 255, 1 / 85, 4 / 255, 1 / 51, 2 / 85, 7 / 255,
              8 / 255, 3 / 85, 2 / 51, 11 / 255, 4 / 85, 13 / 255, 14 / 255, 1 / 17]],
            [replicate 16 (1 / 5)])
   \<and> reshape_2d [0, 1 / 255, 2 / 255, 1 / 85, 4 / 255, 1 / 51, 2 / 85, 7 / 255,
              8 / 255, 3 / 85, 2 / 51, 11 / 255, 4 / 85, 13 / 255, 14 / 255, 1 / 17] 4 4
     = noisy_grid (\<lambda>r c x. int (4 * r + c)) (replicate 28 (replicate 28 100)) 4
   \<and> np_array_shape [replicate 16 (1 / 5)] = [1, 16]"
proof -
  have run: "create_training_data (\<lambda>i r c x. int (4 * r + c)) (\<lambda>i r c x. \<lfloor>x\<rfloor>)
      [replicate 28 (replicate 28 100)] [replicate 28 (replicate 28 51)] 4 28
     = Inr ([[0, 1 / 255, 2 / 255, 1 / 85, 4 / 255, 1 / 51, 2 / 85, 7 / 255,
              8 / 255, 3 / 85, 2 / 51, 11 / 255, 4 / 85, 13 / 255, 14 / 255, 1 / 17]],
            [replicate 16 (1 / 5)])"
    by code_simp
  from flattened_samples_row_major [OF run]
  have "\<exists>g. noisy_grid (\<lambda>r c x. int (4 * r + c)) (replicate 28 (replicate 28 100)) 4 = Inr g
      \<and> reshape_2d [0, 1 / 255, 2 / 255, 1 / 85, 4 / 255, 1 / 51, 2 / 85, 7 / 255,
              8 / 255, 3 / 85, 2 / 51, 11 / 255, 4 / 85, 13 / 255, 14 / 255, 1 / 17] 4 4 = Inr g"
    and "np_array_shape [replicate 16 (1 / 5)] = [1, 16]"
    by auto
  with run show ?thesis by auto
qed

text \<open>
  The claim as first stated gives the shape (number of samples, level squared) for every
  corpus. For an empty corpus the comprehension is the empty list, of which \<open>np.array\<close>
  makes a one-dimensional array of shape \<open>(0,)\<close>, not \<open>(0, 16)\<close>.
\<close>

theorem flattened_shape_counterexample:
  "create_training_data (\<lambda>i r c x. 0) (\<lambda>i r c x. 0) [] [] 4 28 = Inr ([], [])
   \<and> np_array_shape [] = [0]
   \<and> np_array_shape [] \<noteq> [length ([] :: grid list), 4 ^ 2]"
  by (simp add: create_training_data_def down_sample_list_def np_empty_def
      np_random_poisson_def np_clip_def scale_255_def np_array_shape_def)

subsection \<open>Levels that do not divide 28\<close>

lemma median_downsampling_shape:
  assumes "has_shape 28 28 g" and "0 < level" and "level < 15"
  shows "\<exists>v. median_downsampling g (int level) = Inr v
    \<and> has_shape ((28 - 28 div level) div (28 div level) + 1)
          ((28 - 28 div level) div (28 div level) + 1) v"
  using median_downsampling_blocks [OF assms]
  by (simp add: has_shape_def list_all_iff del: upt_Suc)

lemma down_sample_loop_first_fails:
  "down_sample_one x d = Inl e \<Longrightarrow> down_sample_loop (enumerate k (x # xs)) d out = Inl e"
  by (auto simp: down_sample_one_def split: sum.splits)

text \<open>
  Claim C9, amended. No level is validated. On a non-empty stack of 28 by 28 images,
  the levels 6, 8, 10, 11, 12 and 13 fail with a \<open>ValueError\<close> at the assignment
  \<open>out_array[idx] = ...\<close> of \<open>down_sample_list\<close>: \<open>median_downsampling\<close> itself
  returns a grid, whose side differs from the level. The levels 3, 5 and 9 raise
  nothing: \<open>down_sample_list\<close> returns one \<open>level\<close> by \<open>level\<close> grid per image.
  A negative level is refused when the output array is allocated (\<open>ValueError\<close>), and
  level 0 raises \<open>ZeroDivisionError\<close> where the window size is computed.
\<close>

theorem level_not_dividing_28:
  assumes "in_array \<noteq> []" and "list_all (has_shape 28 28) in_array"
  shows "(level \<in> {6, 8, 10, 11, 12, 13} \<longrightarrow>
            (\<exists>v. median_downsampling (hd in_array) (int level) = Inr v
               \<and> broadcast_to v level = Inl ValueError)
            \<and> down_sample_list in_array (int level) = Inl ValueError)
       \<and> (level \<in> {3, 5, 9} \<longrightarrow>
            (\<exists>out_array. down_sample_list in_array (int level) = Inr out_array
               \<and> length out_array = length in_array
               \<and> list_all (has_shape level level) out_array))
       \<and> (cmp_dim < 0 \<longrightarrow> down_sample_list in_array cmp_dim = Inl ValueError)
       \<and> down_sample_list in_array 0 = Inl ZeroDivisionError"
proof (intro conjI impI)
  assume l: "level \<in> {6, 8, 10, 11, 12, 13}"
  from assms obtain x xs where x: "in_array = x # xs" "has_shape 28 28 x"
    by (cases in_array) auto
  let ?n = "(28 - 28 div level) div (28 div level) + 1"
  from l have b: "0 < level" "level < 15" and n: "?n \<noteq> level" "?n \<noteq> 1" by auto
  from median_downsampling_shape [OF x(2) b] obtain v
    where v: "median_downsampling x (int level) = Inr v" "has_shape ?n ?n v"
    by blast
  have m: "broadcast_to v level = Inl ValueError"
    using v(2) n by (rule broadcast_to_mismatch)
  show "\<exists>v. median_downsampling (hd in_array) (int level) = Inr v
      \<and> broadcast_to v level = Inl ValueError"
    using v(1) m x(1) by auto
  have "down_sample_one x (int level) = Inl ValueError"
    using v(1) m by (simp add: down_sample_one_def)
  then have "down_sample_loop (enumerate 0 (x # xs)) (int level) out = Inl ValueError" for out
    by (rule down_sample_loop_first_fails)
  then show "down_sample_list in_array (int level) = Inl ValueError"
    unfolding down_sample_list_def x(1)
    by (simp del: enumerate_simps down_sample_loop.simps)
next
  assume l: "level \<in> {3, 5, 9}"
  let ?n = "(28 - 28 div level) div (28 div level) + 1"
  from l have b: "0 < level" "level < 15" and n: "?n = level" by auto
  have one: "\<exists>g. down_sample_one x (int level) = Inr g" if "x \<in> set in_array" for x
  proof -
    from that assms(2) have "has_shape 28 28 x" by (simp add: list_all_iff)
    from median_downsampling_shape [OF this b] n obtain v
      where v: "median_downsampling x (int level) = Inr v" "has_shape level level v"
      by auto
    then show ?thesis by (simp add: down_sample_one_def broadcast_to_same)
  qed
  then obtain out_array where o: "down_sample_list in_array (int level) = Inr out_array"
    using down_sample_loop_total [of in_array "int level" 0
        "np_empty (length in_array) level level"]
    by (auto simp: down_sample_list_def)
  have "length out_array = length in_array" using o by (rule down_sample_list_result)
  moreover have "list_all (has_shape level level) out_array"
    using down_sample_list_result(4) [OF o] down_sample_list_result(1) [OF o]
    by (simp add: list_all_length)
  ultimately show "\<exists>out_array. down_sample_list in_array (int level) = Inr out_array
      \<and> length out_array = length in_array \<and> list_all (has_shape level level) out_array"
    using o by blast
next
  assume "cmp_dim < 0"
  then show "down_sample_list in_array cmp_dim = Inl ValueError"
    by (simp add: down_sample_list_def)
next
  from assms(1) obtain x xs where "in_array = x # xs" by (cases in_array) auto
  then show "down_sample_list in_array 0 = Inl ZeroDivisionError"
    by (simp add: down_sample_list_def median_downsampling_def)
qed

theorem level_not_dividing_28_witness:
  "down_sample_list [replicate 28 (replicate 28 100)] 6 = Inl ValueError
   \<and> down_sample_list [replicate 28 (replicate 28 100)] 9 = Inr [replicate 9 (replicate 9 100)]
   \<and> down_sample_list [replicate 28 (replicate 28 100)] (- 3) = Inl ValueError
   \<and> down_sample_list [replicate 28 (replicate 28 100)] 0 = Inl ZeroDivisionError"
proof -
  have s: "list_all (has_shape 28 28) [replicate 28 (replicate 28 (100::rat))]"
    by (simp add: has_shape_def list_all_iff)
  have "down_sample_list [replicate 28 (replicate 28 100)] (int 6) = Inl ValueError"
    and "down_sample_list [replicate 28 (replicate 28 100)] (- 3) = Inl ValueError"
    and "down_sample_list [replicate 28 (replicate 28 100)] 0 = Inl ZeroDivisionError"
    using level_not_dividing_28 [OF _ s, of 6 "- 3"] by simp_all
  moreover have "down_sample_list [replicate 28 (replicate 28 100)] 9
      = Inr [replicate 9 (replicate 9 100)]"
    by code_simp
  ultimately show ?thesis by simp
qed

text \<open>
  The claim as first stated promises a failure for every level below 15 that does not
  divide 28. Level 5 does not divide 28, and the builder runs through: windows of side
  \<open>28 // 5 = 5\<close> with step 5 give \<open>(28 - 5) // 5 + 1 = 5\<close> windows per axis, so the
  result fits the 5 by 5 slot (the last three rows and columns of the image are ignored).
\<close>

theorem level_5_counterexample:
  "\<not> (5::int) dvd 28 \<and> (5::int) < 15
   \<and> down_sample_list [replicate 28 (replicate 28 100)] 5 = Inr [replicate 5 (replicate 5 100)]
   \<and> create_training_data (\<lambda>i r c x. \<lfloor>x\<rfloor>) (\<lambda>i r c x. \<lfloor>x\<rfloor>)
        [replicate 28 (replicate 28 100)] [replicate 28 (replicate 28 100)] 5 28
      = Inr ([replicate 25 (20 / 51)], [replicate 25 (20 / 51)])"
proof -
  have "down_sample_list [replicate 28 (replicate 28 100)] 5 = Inr [replicate 5 (replicate 5 100)]"
    by code_simp
  moreover have "create_training_data (\<lambda>i r c x. \<lfloor>x\<rfloor>) (\<lambda>i r c x. \<lfloor>x\<rfloor>)
        [replicate 28 (replicate 28 100)] [replicate 28 (replicate 28 100)] 5 28
      = Inr ([replicate 25 (20 / 51)], [replicate 25 (20 / 51)])"
    by code_simp
  ultimately show ?thesis by simp
qed

section \<open>Properties of the model trainer\<close>

subsection \<open>Label vectors are one-hot\<close>

lemma sum_list_one_hot:
  "j < n \<Longrightarrow> sum_list ((replicate n (0::rat))[j := 1]) = 1"
proof (induction n arbitrary: j)
  case 0
  then show ?case by simp
next
  case (Suc n)
  then show ?case by (cases j) (simp_all add: sum_list_replicate)
qed

lemma one_hot_row_label:
  "1 \<le> l \<Longrightarrow> l \<le> 26 \<Longrightarrow> one_hot_row 26 (l - 1) = Inr ((replicate 26 0)[nat (l - 1) := 1])"
  by (simp add: one_hot_row_def)

lemma prepare_labels_ok:
  "\<forall>l \<in> set labels. 1 \<le> l \<and> l \<le> 26 \<Longrightarrow>
   prepare_labels labels = Inr (map (\<lambda>l. (replicate 26 0)[nat (l - 1) := 1]) labels)"
  unfolding prepare_labels_def
  by (induction labels) (simp_all add: one_hot_row_label)

text \<open>
  Claim C6. For raw labels between 1 and 26, the label preparation yields one row of 26
  entries per label; the entries of a row sum to 1, the entry at index \<open>label - 1\<close> is
  1 and every other entry is 0.
\<close>

theorem prepare_labels_one_hot:
  assumes "\<forall>l \<in> set train_labels. 1 \<le> l \<and> l \<le> 26"
  shows "\<exists>rows. prepare_labels train_labels = Inr rows
           \<and> length rows = length train_labels
           \<and> (\<forall>i < length train_labels.
                 length (rows ! i) = 26
                 \<and> sum_list (rows ! i) = 1
                 \<and> rows ! i ! nat (train_labels ! i - 1) = 1
                 \<and> (\<forall>j < 26. j \<noteq> nat (train_labels ! i - 1) \<longrightarrow> rows ! i ! j = 0))"
proof -
  let ?rows = "map (\<lambda>l. (replicate 26 (0::rat))[nat (l - 1) := 1]) train_labels"
  have "prepare_labels train_labels = Inr ?rows" using assms by (rule prepare_labels_ok)
  moreover have "length ?rows = length train_labels" by simp
  moreover have "length (?rows ! i) = 26 \<and> sum_list (?rows ! i) = 1
        \<and> ?rows ! i ! nat (train_labels ! i - 1) = 1
        \<and> (\<forall>j < 26. j \<noteq> nat (train_labels ! i - 1) \<longrightarrow> ?rows ! i ! j = 0)"
    if "i < length train_labels" for i
  proof -
    from that assms have b: "1 \<le> train_labels ! i" "train_labels ! i \<le> 26" by auto
    then have j: "nat (train_labels ! i - 1) < 26" by simp
    show ?thesis using that j by (simp add: sum_list_one_hot)
  qed
  ultimately show ?thesis by blast
qed

theorem prepare_labels_one_hot_witness:
  "prepare_labels [1, 26, 3] =
     Inr [[1, 0, 0, 0, 0, 0, 0, 0, 0, 0, 0, 0, 0, 0, 0, 0, 0, 0, 0, 0, 0, 0, 0, 0, 0, 0],
          [0, 0, 0, 0, 0, 0, 0, 0, 0, 0, 0, 0, 0, 0, 0, 0, 0, 0, 0, 0, 0, 0, 0, 0, 0, 1],
          [0, 0, 1, 0, 0, 0, 0, 0, 0, 0, 0, 0, 0, 0, 0, 0, 0, 0, 0, 0, 0, 0, 0, 0, 0, 0]]
   \<and> sum_list [0, 0, 1, 0, 0, 0, 0, 0, 0, 0, 0, 0, 0, 0, 0, 0, 0, 0, 0, 0, 0, 0, 0, 0, 0, (0::rat)] = 1"
  using prepare_labels_one_hot [of "[1, 26, 3]"]
  by (simp add: prepare_labels_def one_hot_row_def eval_nat_numeral)

subsection \<open>The loop of \<open>fit_model\<close>\<close>

lemma merge_history_error:
  "merge_history acc new = Inl e \<Longrightarrow> \<exists>key. e = HistoryKeyError key"
  by (induction acc arbitrary: e) (auto split: option.splits sum.splits)

lemma fit_loop_no_length_error:
  "snd (fit_loop fit x y bs es m acc) \<noteq> Inl (LengthValueError a b)"
proof (induction fit x y bs es m acc rule: fit_loop.induct)
  case (1 fit input_data output_data batch_sizes in_model fit_hist_all)
  show ?case by simp
next
  case (2 fit input_data output_data batch_sizes idx epoch rest in_model fit_hist_all)
  show ?case
    using 2 by (auto split: prod.splits sum.splits option.splits dest: merge_history_error)
qed

lemma merge_history_ok:
  "fst ` set acc \<subseteq> fst ` set new \<Longrightarrow>
   merge_history acc new = Inr (map (\<lambda>(key, vals). (key, vals @ lookup_metric new key)) acc)"
proof (induction acc)
  case Nil
  show ?case by simp
next
  case (Cons a acc)
  obtain key vals where a: "a = (key, vals)" by (cases a)
  from Cons.prems a have "key \<in> fst ` set new" by simp
  then obtain more where m: "map_of new key = Some more"
    by (metis domD dom_map_of_conv_image_fst)
  from Cons.prems have "fst ` set acc \<subseteq> fst ` set new" by simp
  with Cons.IH a m show ?case by (simp add: lookup_metric_def)
qed

lemma extend_history_keys: "map fst (extend_history acc hs) = map fst acc"
  by (induction acc) (auto simp: extend_history_def)

lemma extend_history_step:
  "extend_history (map (\<lambda>(key, vals). (key, vals @ lookup_metric h key)) acc) hs =
   extend_history acc (h # hs)"
  by (induction acc) (auto simp: extend_history_def continuous_record_def)

lemma extend_history_Nil: "extend_history acc [] = acc"
  by (induction acc) (auto simp: extend_history_def continuous_record_def)

lemma map_of_extend_history:
  "map_of (extend_history acc hs) key =
   map_option (\<lambda>vals. vals @ continuous_record hs key) (map_of acc key)"
  by (induction acc) (auto simp: extend_history_def)

text \<open>
  From a stage with a positive index on, the loop runs the remaining stages in order
  and appends each stage's values to the record.
\<close>

lemma fit_loop_stages:
  "0 < n \<Longrightarrow> n + length es = length bs \<Longrightarrow>
   list_all (stage_ok (fst ` set acc)) (run_stages fit x y m (zip es (drop n bs))) \<Longrightarrow>
   fit_loop fit x y bs (enumerate n es) m (Some acc) =
     (last (m # map fst (run_stages fit x y m (zip es (drop n bs)))),
      Inr (Some (extend_history acc
                  (map history_of (run_stages fit x y m (zip es (drop n bs)))))))"
proof (induction es arbitrary: n m acc)
  case Nil
  show ?case by (simp add: extend_history_Nil)
next
  case (Cons e es)
  from Cons.prems have n: "n < length bs" by simp
  then have d: "drop n bs = bs ! n # drop (Suc n) bs" by (simp add: Cons_nth_drop_Suc)
  obtain m' r where f: "fit m x y e (bs ! n) (1 / 5) = (m', r)"
    by (cases "fit m x y e (bs ! n) (1 / 5)")
  from Cons.prems(3) d f obtain h where r: "r = Inr h" and k: "fst ` set acc \<subseteq> fst ` set h"
    by (auto simp: stage_ok_def Let_def split: sum.splits)
  let ?acc' = "map (\<lambda>(key, vals). (key, vals @ lookup_metric h key)) acc"
  have keys: "fst ` set ?acc' = fst ` set acc" by force
  have rest: "list_all (stage_ok (fst ` set ?acc'))
                (run_stages fit x y m' (zip es (drop (Suc n) bs)))"
    unfolding keys using Cons.prems(3) d f by (simp add: Let_def)
  have ih: "fit_loop fit x y bs (enumerate (Suc n) es) m' (Some ?acc') =
     (last (m' # map fst (run_stages fit x y m' (zip es (drop (Suc n) bs)))),
      Inr (Some (extend_history ?acc'
                  (map history_of (run_stages fit x y m' (zip es (drop (Suc n) bs)))))))"
    using Cons.prems(2) rest by (intro Cons.IH) auto
  have step: "fit_loop fit x y bs (enumerate n (e # es)) m (Some acc) =
      fit_loop fit x y bs (enumerate (Suc n) es) m' (Some ?acc')"
    using Cons.prems(1) n f r by (simp add: merge_history_ok [OF k])
  have rs: "run_stages fit x y m (zip (e # es) (drop n bs)) =
      (m', r) # run_stages fit x y m' (zip es (drop (Suc n) bs))"
    using d f by (simp add: Let_def)
  have hr: "history_of (m', r) = h" by (simp add: history_of_def r)
  show ?case
    unfolding step ih rs by (simp add: extend_history_step hr)
qed

lemma fit_model_run_stages:
  assumes len: "length epochs_list = length batch_sizes"
    and ne: "epochs_list \<noteq> []"
    and ok: "list_all (stage_ok (fst ` set (history_of (hd (run_stages fit x y m
                 (zip epochs_list batch_sizes))))))
               (run_stages fit x y m (zip epochs_list batch_sizes))"
  shows "fit_model fit m epochs_list batch_sizes x y =
           (fst (last (run_stages fit x y m (zip epochs_list batch_sizes))),
            Inr (extend_history
                  (history_of (hd (run_stages fit x y m (zip epochs_list batch_sizes))))
                  (map history_of (tl (run_stages fit x y m (zip epochs_list batch_sizes))))))"
proof -
  from ne obtain e es where es: "epochs_list = e # es" by (cases epochs_list) auto
  with len obtain b bs where bs: "batch_sizes = b # bs" by (cases batch_sizes) auto
  obtain m' r where f: "fit m x y e b (1 / 5) = (m', r)" by (cases "fit m x y e b (1 / 5)")
  from ok es bs f obtain h where r: "r = Inr h"
    by (auto simp: stage_ok_def Let_def split: sum.splits)
  have h: "history_of (m', r) = h" by (simp add: history_of_def r)
  have rest: "list_all (stage_ok (fst ` set h))
                (run_stages fit x y m' (zip es (drop 1 batch_sizes)))"
    using ok es bs f h by (simp add: Let_def)
  have "fit_loop fit x y batch_sizes (enumerate 1 es) m' (Some h) =
     (last (m' # map fst (run_stages fit x y m' (zip es (drop 1 batch_sizes)))),
      Inr (Some (extend_history h
                  (map history_of (run_stages fit x y m' (zip es (drop 1 batch_sizes)))))))"
    using len es rest by (intro fit_loop_stages) auto
  moreover have "fit_loop fit x y batch_sizes (enumerate 0 epochs_list) m None =
      fit_loop fit x y batch_sizes (enumerate 1 es) m' (Some h)"
    using es bs f r by simp
  moreover have "run_stages fit x y m (zip epochs_list batch_sizes) =
      (m', r) # run_stages fit x y m' (zip es (drop 1 batch_sizes))"
    using es bs f by (simp add: Let_def)
  ultimately show ?thesis
    using len h by (simp add: fit_model_def last_map)
qed

lemma length_run_stages: "length (run_stages fit x y m ps) = length ps"
  by (induction ps arbitrary: m) (auto simp: Let_def)

subsection \<open>The claims about \<open>fit_model\<close>\<close>

text \<open>
  Claim C1. When \<open>epochs_list\<close> and \<open>batch_sizes\<close> differ in length, \<open>fit_model\<close>
  raises the \<open>ValueError\<close> of its length check and the model is in the state it was
  passed in, whatever the training procedure \<open>fit\<close> would do: no stage has run. When
  the lengths are equal, the outcome is never that error.
\<close>

theorem fit_model_length_check:
  "(length epochs_list \<noteq> length batch_sizes \<longrightarrow>
      fit_model fit in_model epochs_list batch_sizes input_data output_data =
        (in_model, Inl (LengthValueError (length epochs_list) (length batch_sizes))))
   \<and> (length epochs_list = length batch_sizes \<longrightarrow>
      snd (fit_model fit in_model epochs_list batch_sizes input_data output_data)
        \<noteq> Inl (LengthValueError a b))"
proof (intro conjI impI)
  assume "length epochs_list \<noteq> length batch_sizes"
  then show "fit_model fit in_model epochs_list batch_sizes input_data output_data =
      (in_model, Inl (LengthValueError (length epochs_list) (length batch_sizes)))"
    by (simp add: fit_model_def)
next
  assume eq: "length epochs_list = length batch_sizes"
  obtain trained r
    where l: "fit_loop fit input_data output_data batch_sizes (enumerate 0 epochs_list)
                in_model None = (trained, r)"
    by (cases "fit_loop fit input_data output_data batch_sizes (enumerate 0 epochs_list)
                 in_model None")
  have "r \<noteq> Inl (LengthValueError a b)"
    using fit_loop_no_length_error [of fit input_data output_data batch_sizes
        "enumerate 0 epochs_list" in_model None a b] l
    by simp
  then show "snd (fit_model fit in_model epochs_list batch_sizes input_data output_data)
      \<noteq> Inl (LengthValueError a b)"
    using eq l by (auto simp: fit_model_def split: sum.splits option.splits)
qed

theorem fit_model_length_check_witness:
  "fit_model (\<lambda>m x y e b v. (m @ [(e, b)], Inr [(''loss'', replicate (nat e) b)]))
      [] [20, 30] [100, 150, 200] () ()
     = ([], Inl (LengthValueError 2 3) :: (string, unit) fit_error + (string, int) history)
   \<and> snd (fit_model (\<lambda>m x y e b v. (m @ [(e, b)], Inr [(''loss'', replicate (nat e) b)]))
      [] [20, 30] [100, 150] () ())
     \<noteq> (Inl (LengthValueError 2 2) :: (string, unit) fit_error + (string, int) history)"
  using fit_model_length_check
      [where epochs_list = "[20, 30]" and batch_sizes = "[100, 150, 200]"
         and in_model = "[]" and input_data = "()" and output_data = "()"
         and fit = "\<lambda>m x y e b v. (m @ [(e, b)],
                      Inr [(''loss'', replicate (nat e) b)] :: unit + (string, int) history)"]
    fit_model_length_check
      [where epochs_list = "[20, 30]" and batch_sizes = "[100, 150]"
         and in_model = "[]" and input_data = "()" and output_data = "()"
         and a = 2 and b = 2
         and fit = "\<lambda>m x y e b v. (m @ [(e, b)],
                      Inr [(''loss'', replicate (nat e) b)] :: unit + (string, int) history)"]
  by simp

text \<open>
  Claim C10. With both lists empty the length check passes and no stage runs, but
  \<open>fit_model\<close> does not return a pair of the model and an empty history: the
  \<open>return\<close> statement reads \<open>fit_hist_all\<close>, which was never assigned, and raises
  \<open>UnboundLocalError\<close>. The model is left as it was.
\<close>

theorem fit_model_empty_lists_unbound:
  "fit_model fit in_model [] [] input_data output_data = (in_model, Inl UnboundLocalError)"
  by (simp add: fit_model_def)

lemma fit_model_stages_ok:
  assumes "length epochs_list = length batch_sizes"
    and "epochs_list \<noteq> []"
    and "run_stages fit input_data output_data in_model (zip epochs_list batch_sizes) = rs"
    and "list_all (stage_ok (fst ` set (history_of (hd rs)))) rs"
  shows "\<exists>fit_hist_all.
           fit_model fit in_model epochs_list batch_sizes input_data output_data =
             (fst (last rs), Inr fit_hist_all)
           \<and> length rs = length epochs_list
           \<and> map fst fit_hist_all = map fst (history_of (hd rs))
           \<and> (\<forall>key \<in> set (map fst fit_hist_all).
                 map_of fit_hist_all key = Some (continuous_record (map history_of rs) key))"
proof -
  let ?h = "extend_history (history_of (hd rs)) (map history_of (tl rs))"
  have run: "fit_model fit in_model epochs_list batch_sizes input_data output_data =
      (fst (last rs), Inr ?h)"
    using fit_model_run_stages [of epochs_list batch_sizes fit input_data output_data in_model]
      assms by simp
  have len: "length rs = length epochs_list"
    using assms(1) assms(3) [symmetric] by (simp add: length_run_stages)
  have ne: "rs \<noteq> []" using len assms(2) by auto
  have keys: "map fst ?h = map fst (history_of (hd rs))" by (rule extend_history_keys)
  have vals: "map_of ?h key = Some (continuous_record (map history_of rs) key)"
    if "key \<in> set (map fst ?h)" for key
  proof -
    from that keys have "key \<in> fst ` set (history_of (hd rs))" by simp
    then obtain v where v: "map_of (history_of (hd rs)) key = Some v"
      by (metis domD dom_map_of_conv_image_fst)
    have "rs = hd rs # tl rs" using ne by simp
    then have "continuous_record (map history_of rs) key =
        lookup_metric (history_of (hd rs)) key @ continuous_record (map history_of (tl rs)) key"
      by (metis (no_types) continuous_record_def concat.simps(2) list.simps(9))
    with v show ?thesis by (simp add: map_of_extend_history lookup_metric_def)
  qed
  from run len keys vals show ?thesis by blast
qed

lemma merge_history_keys:
  "merge_history acc new = Inr merged \<Longrightarrow> fst ` set acc \<subseteq> fst ` set new"
  by (induction acc arbitrary: merged)
     (force split: option.splits sum.splits dest: map_of_SomeD)+

lemma fit_loop_returns:
  "0 < n \<Longrightarrow> n + length es = length bs \<Longrightarrow>
   fit_loop (fit :: ('m, 'x, 'y, 'k, 'v, 'e) fit) x y bs (enumerate n es) m (Some acc)
     = (trained, Inr r) \<Longrightarrow>
   list_all (stage_ok (fst ` set acc)) (run_stages fit x y m (zip es (drop n bs)))"
proof (induction es arbitrary: n m acc)
  case Nil
  show ?case by simp
next
  case (Cons e es)
  from Cons.prems have n: "n < length bs" by simp
  then have d: "drop n bs = bs ! n # drop (Suc n) bs" by (simp add: Cons_nth_drop_Suc)
  obtain m' o' where f: "fit m x y e (bs ! n) (1 / 5) = (m', o')"
    by (cases "fit m x y e (bs ! n) (1 / 5)")
  from Cons.prems(1,3) n f obtain h merged where o': "o' = Inr h"
    and mh: "(merge_history acc h :: ('k, 'e) fit_error + ('k, 'v) history) = Inr merged"
    and l: "fit_loop fit x y bs (enumerate (Suc n) es) m' (Some merged) = (trained, Inr r)"
    by (auto split: sum.splits)
  have k: "fst ` set acc \<subseteq> fst ` set h" using mh by (rule merge_history_keys)
  have "merged = map (\<lambda>(key, vals). (key, vals @ lookup_metric h key)) acc"
    using mh unfolding merge_history_ok [OF k] by simp
  then have keys: "fst ` set merged = fst ` set acc" by force
  have "list_all (stage_ok (fst ` set merged)) (run_stages fit x y m' (zip es (drop (Suc n) bs)))"
    using Cons.prems(2) l by (intro Cons.IH) auto
  moreover have "stage_ok (fst ` set acc) (m', o')"
    using o' k by (simp add: stage_ok_def)
  ultimately show ?case
    unfolding keys using d f by (simp add: Let_def)
qed

lemma fit_model_returns:
  assumes len: "length epochs_list = length batch_sizes"
    and ret: "fit_model fit m epochs_list batch_sizes x y = (trained, Inr h)"
  shows "epochs_list \<noteq> []"
    and "list_all (stage_ok (fst ` set (history_of (hd (run_stages fit x y m
                 (zip epochs_list batch_sizes))))))
               (run_stages fit x y m (zip epochs_list batch_sizes))"
proof -
  show ne: "epochs_list \<noteq> []" using ret len by (auto simp: fit_model_def)
  then obtain e es where es: "epochs_list = e # es" by (cases epochs_list) auto
  with len obtain b bs where bs: "batch_sizes = b # bs" by (cases batch_sizes) auto
  obtain m' o' where f: "fit m x y e b (1 / 5) = (m', o')" by (cases "fit m x y e b (1 / 5)")
  from ret len es bs f obtain h1 r where o': "o' = Inr h1"
    and l: "fit_loop fit x y batch_sizes (enumerate 1 es) m' (Some h1) = (trained, Inr r)"
    by (auto simp: fit_model_def split: sum.splits prod.splits option.splits)
  have "list_all (stage_ok (fst ` set h1)) (run_stages fit x y m' (zip es (drop 1 batch_sizes)))"
    using len es l by (intro fit_loop_returns) auto
  moreover have "history_of (m', o') = h1" by (simp add: history_of_def o')
  moreover have "stage_ok (fst ` set h1) (m', o')" by (simp add: stage_ok_def o')
  ultimately show "list_all (stage_ok (fst ` set (history_of (hd (run_stages fit x y m
                 (zip epochs_list batch_sizes))))))
               (run_stages fit x y m (zip epochs_list batch_sizes))"
    using es bs f by (simp add: Let_def)
qed

text \<open>
  Claim C7. For equal-length non-empty lists, \<open>fit_model\<close> returns a model and a
  history exactly when every stage of the sequential run returns a history that reports
  the metrics of the first stage (otherwise it raises). Whenever it returns, the model
  is the one the last stage left, the history has the metric keys of the first stage,
  and every key holds the per-epoch values of all stages in stage order.
\<close>

theorem fit_model_staged_history:
  assumes "length epochs_list = length batch_sizes"
    and "epochs_list \<noteq> []"
    and "run_stages fit input_data output_data in_model (zip epochs_list batch_sizes) = rs"
  shows "((\<exists>trained fit_hist_all.
             fit_model fit in_model epochs_list batch_sizes input_data output_data =
               (trained, Inr fit_hist_all))
          \<longleftrightarrow> list_all (stage_ok (fst ` set (history_of (hd rs)))) rs)
       \<and> (fit_model fit in_model epochs_list batch_sizes input_data output_data =
             (trained, Inr fit_hist_all) \<longrightarrow>
           trained = fst (last rs)
           \<and> length rs = length epochs_list
           \<and> map fst fit_hist_all = map fst (history_of (hd rs))
           \<and> (\<forall>key \<in> set (map fst fit_hist_all).
                 map_of fit_hist_all key = Some (continuous_record (map history_of rs) key)))"
proof -
  have fwd: "list_all (stage_ok (fst ` set (history_of (hd rs)))) rs"
    if "fit_model fit in_model epochs_list batch_sizes input_data output_data = (t, Inr h)"
    for t h
    using fit_model_returns(2) [OF assms(1) that] assms(3) by simp
  have bwd: "\<exists>trained fit_hist_all.
      fit_model fit in_model epochs_list batch_sizes input_data output_data =
        (trained, Inr fit_hist_all)"
    if "list_all (stage_ok (fst ` set (history_of (hd rs)))) rs"
    using fit_model_stages_ok [OF assms that] by blast
  have res: "trained = fst (last rs)
      \<and> length rs = length epochs_list
      \<and> map fst fit_hist_all = map fst (history_of (hd rs))
      \<and> (\<forall>key \<in> set (map fst fit_hist_all).
            map_of fit_hist_all key = Some (continuous_record (map history_of rs) key))"
    if ret: "fit_model fit in_model epochs_list batch_sizes input_data output_data =
      (trained, Inr fit_hist_all)"
  proof -
    from fit_model_stages_ok [OF assms fwd [OF ret]] obtain h
      where h: "fit_model fit in_model epochs_list batch_sizes input_data output_data =
          (fst (last rs), Inr h)"
        "length rs = length epochs_list"
        "map fst h = map fst (history_of (hd rs))"
        "\<forall>key \<in> set (map fst h).
           map_of h key = Some (continuous_record (map history_of rs) key)"
      by blast
    from h(1) ret have "trained = fst (last rs)" and "fit_hist_all = h" by simp_all
    with h(2-4) show ?thesis by blast
  qed
  from fwd bwd res show ?thesis by blast
qed

theorem fit_model_staged_history_witness:
  "fit_model (\<lambda>m x y e b v. (m @ [(e, b)],
        Inr [(''loss'', replicate (nat e) b), (''val_loss'', replicate (nat e) (b + 1))]
          :: unit + (string, int) history))
      [] [2, 3] [100, 150] () ()
   = ([(2, 100), (3, 150)],
      Inr [(''loss'', [100, 100, 150, 150, 150]),
           (''val_loss'', [101, 101, 151, 151, 151])])"
  using fit_model_staged_history
      [where epochs_list = "[2, 3]" and batch_sizes = "[100, 150]"
         and in_model = "[]" and input_data = "()" and output_data = "()"
         and fit = "\<lambda>m x y e b v. (m @ [(e, b)],
              Inr [(''loss'', replicate (nat e) b), (''val_loss'', replicate (nat e) (b + 1))]
                :: unit + (string, int) history)", OF _ _ refl]
  by (simp add: fit_model_def stage_ok_def history_of_def continuous_record_def
        lookup_metric_def eval_nat_numeral)


end
